theory Spec2Isabelle
  imports Main "HOL-Library.Sublist" "HOL-Library.Multiset"
begin

section \<open>Values of the program\<close>

text \<open>
  A Python \<open>str\<close> is a sequence of Unicode code points, so text is a list of code points
  (natural numbers), not a list of bytes. \<open>str\<close> turns an ASCII literal into such a text.
\<close>

type_synonym uchar = nat
type_synonym ustr = "uchar list"

definition str :: "string \<Rightarrow> ustr" where
  "str s = map of_char s"

text \<open>
  What \<open>json.loads\<close> hands to the script: \<open>None\<close>, booleans, integers, strings, lists and
  dicts with string keys. A dict keeps its insertion order and is an association list;
  floating-point numbers are not represented.
\<close>

datatype json =
    JNull
  | JBool bool
  | JInt int
  | JStr ustr
  | JArr "json list"
  | JObj "(ustr \<times> json) list"

type_synonym dict = "(ustr \<times> json) list"

text \<open>
  Every way the script stops early: \<open>die\<close> raises \<open>SystemExit\<close> with its code (1 unless said
  otherwise); the other constructors are the uncaught Python exceptions, which end the
  process with exit code 1 as well.
\<close>

datatype py_error =
    SystemExit int
  | TypeError
  | AttributeError
  | ValueError
  | OSError


definition die :: "py_error + 'a" where
  "die = Inl (SystemExit 1)"

definition bind :: "py_error + 'a \<Rightarrow> ('a \<Rightarrow> py_error + 'b) \<Rightarrow> py_error + 'b" where
  "bind m f = (case m of Inl e \<Rightarrow> Inl e | Inr x \<Rightarrow> f x)"

subsection \<open>Dicts\<close>

text \<open>\<open>d.get(k)\<close> as an option, \<open>d.get(k, default)\<close>, and \<open>d[k] = v\<close>, which overwrites the
  value of a key in place and puts a new key last.\<close>

definition dict_get :: "dict \<Rightarrow> ustr \<Rightarrow> json option" where
  "dict_get d k = map_of d k"

definition dict_get_default :: "dict \<Rightarrow> ustr \<Rightarrow> json \<Rightarrow> json" where
  "dict_get_default d k dflt = (case dict_get d k of None \<Rightarrow> dflt | Some v \<Rightarrow> v)"

fun dict_set :: "dict \<Rightarrow> ustr \<Rightarrow> json \<Rightarrow> dict" where
  "dict_set [] k v = [(k, v)]"
| "dict_set ((k', v') # d) k v = (if k' = k then (k, v) # d else (k', v') # dict_set d k v)"

subsection \<open>Python's \<open>==\<close> and \<open><\<close> on these values\<close>

text \<open>\<open>True == 1\<close> and \<open>False == 0\<close> hold in Python; lists are equal elementwise, dicts
  when they have the same keys with equal values; values of different kinds differ.\<close>

fun py_eq :: "json \<Rightarrow> json \<Rightarrow> bool" where
  "py_eq JNull JNull = True"
| "py_eq (JBool a) (JBool b) = (a = b)"
| "py_eq (JBool a) (JInt j) = ((if a then 1 else 0) = j)"
| "py_eq (JInt i) (JBool b) = (i = (if b then 1 else 0))"
| "py_eq (JInt i) (JInt j) = (i = j)"
| "py_eq (JStr s) (JStr t) = (s = t)"
| "py_eq (JArr xs) (JArr ys) = list_all2 py_eq xs ys"
| "py_eq (JObj a) (JObj b) =
     (length a = length b \<and>
      list_all (\<lambda>kv. case map_of b (fst kv) of None \<Rightarrow> False | Some w \<Rightarrow> py_eq (snd kv) w) a)"
| "py_eq _ _ = False"

text \<open>\<open><\<close> is defined between numbers (booleans count as 0 and 1), between strings (by code
  point) and between lists (at the first pair of unequal elements, else by length); every
  other comparison raises \<open>TypeError\<close>.\<close>

fun num_of :: "json \<Rightarrow> int option" where
  "num_of (JBool b) = Some (if b then 1 else 0)"
| "num_of (JInt i) = Some i"
| "num_of _ = None"

fun str_lt :: "ustr \<Rightarrow> ustr \<Rightarrow> bool" where
  "str_lt [] [] = False"
| "str_lt [] (y # ys) = True"
| "str_lt (x # xs) [] = False"
| "str_lt (x # xs) (y # ys) = (x < y \<or> (x = y \<and> str_lt xs ys))"

fun py_lt :: "json \<Rightarrow> json \<Rightarrow> py_error + bool"
  and py_lt_list :: "json list \<Rightarrow> json list \<Rightarrow> py_error + bool" where
  "py_lt (JStr s) (JStr t) = Inr (str_lt s t)"
| "py_lt (JArr xs) (JArr ys) = py_lt_list xs ys"
| "py_lt a b =
     (case (num_of a, num_of b) of
        (Some i, Some j) \<Rightarrow> Inr (i < j)
      | _ \<Rightarrow> Inl TypeError)"
| "py_lt_list [] [] = Inr False"
| "py_lt_list [] (y # ys) = Inr True"
| "py_lt_list (x # xs) [] = Inr False"
| "py_lt_list (x # xs) (y # ys) = (if py_eq x y then py_lt_list xs ys else py_lt x y)"

subsection \<open>\<open>list(...)\<close> and \<open>list.sort(key=...)\<close>\<close>

text \<open>\<open>list(v)\<close> copies a list, lists the keys of a dict and the characters of a string, and
  raises \<open>TypeError\<close> on a value that is not iterable.\<close>

fun py_list :: "json \<Rightarrow> py_error + json list" where
  "py_list (JArr xs) = Inr xs"
| "py_list (JObj d) = Inr (map (\<lambda>kv. JStr (fst kv)) d)"
| "py_list (JStr s) = Inr (map (\<lambda>c. JStr [c]) s)"
| "py_list _ = Inl TypeError"

text \<open>
  \<open>list.sort\<close> computes the key of every element first, then orders the elements with
  \<open><\<close> on the keys alone, keeping elements with equal keys in their order (the sort is
  stable), and gives up at the first comparison that raises. It is modelled as the
  insertion of each element, from left to right, behind every element that is not greater.
\<close>

fun py_insert :: "json \<times> 'a \<Rightarrow> (json \<times> 'a) list \<Rightarrow> py_error + (json \<times> 'a) list" where
  "py_insert x [] = Inr [x]"
| "py_insert x (y # ys) =
     bind (py_lt (fst x) (fst y)) (\<lambda>less.
       if less then Inr (x # y # ys)
       else bind (py_insert x ys) (\<lambda>zs. Inr (y # zs)))"

fun py_sort_keyed :: "(json \<times> 'a) list \<Rightarrow> (json \<times> 'a) list \<Rightarrow> py_error + (json \<times> 'a) list" where
  "py_sort_keyed acc [] = Inr acc"
| "py_sort_keyed acc (x # xs) = bind (py_insert x acc) (\<lambda>acc'. py_sort_keyed acc' xs)"

fun map_result :: "('a \<Rightarrow> py_error + 'b) \<Rightarrow> 'a list \<Rightarrow> py_error + 'b list" where
  "map_result f [] = Inr []"
| "map_result f (x # xs) = bind (f x) (\<lambda>y. bind (map_result f xs) (\<lambda>ys. Inr (y # ys)))"

definition py_sort :: "('a \<Rightarrow> py_error + json) \<Rightarrow> 'a list \<Rightarrow> py_error + 'a list" where
  "py_sort key xs =
     bind (map_result (\<lambda>x. bind (key x) (\<lambda>k. Inr (k, x))) xs) (\<lambda>keyed.
     bind (py_sort_keyed [] keyed) (\<lambda>sorted_pairs.
     Inr (map snd sorted_pairs)))"

section \<open>The data-store updater\<close>

text \<open>
  \<open>a.get(k)\<close> and \<open>a.get(k, default)\<close> on an element of the list: only a dict has a \<open>get\<close>
  method, any other value raises \<open>AttributeError\<close>. A missing key reads as \<open>None\<close>.
\<close>

fun obj_get :: "json \<Rightarrow> ustr \<Rightarrow> json \<Rightarrow> py_error + json" where
  "obj_get (JObj d) k dflt = Inr (dict_get_default d k dflt)"
| "obj_get _ k dflt = Inl AttributeError"

text \<open>The loop of \<open>upsert_article\<close>: the first element whose week equals \<open>week\<close> is overwritten
  and the loop stops; the result is the list and the flag \<open>replaced\<close>.\<close>

fun replace_week :: "json \<Rightarrow> json \<Rightarrow> json list \<Rightarrow> py_error + (json list \<times> bool)" where
  "replace_week week article [] = Inr ([], False)"
| "replace_week week article (a # as) =
     bind (obj_get a (str ''week'') JNull) (\<lambda>w.
       if py_eq w week then Inr (article # as, True)
       else bind (replace_week week article as) (\<lambda>(as', replaced). Inr (a # as', replaced)))"

definition upsert_article :: "dict \<Rightarrow> dict \<Rightarrow> py_error + dict" where
  "upsert_article data article =
     bind (py_list (dict_get_default data (str ''articles'') (JArr []))) (\<lambda>articles.
     let week = dict_get_default article (str ''week'') JNull in
     bind (replace_week week (JObj article) articles) (\<lambda>(articles, replaced).
     let articles = (if \<not> replaced then articles @ [JObj article] else articles) in
     bind (py_sort (\<lambda>a. obj_get a (str ''week'') (JInt 0)) articles) (\<lambda>articles.
     Inr (dict_set (dict_set data (str ''articles'') (JArr articles))
            (str ''completed'') (JInt (int (length articles)))))))"

fun week_of :: "json \<Rightarrow> int" where
  "week_of (JObj d) = (case dict_get d (str ''week'') of Some (JInt i) \<Rightarrow> i | _ \<Rightarrow> 0)"
| "week_of _ = 0"

fun article_record :: "json \<Rightarrow> bool" where
  "article_record (JObj d) = (case dict_get d (str ''week'') of Some (JInt i) \<Rightarrow> True | _ \<Rightarrow> False)"
| "article_record _ = False"

definition articles_of :: "dict \<Rightarrow> json list" where
  "articles_of data = (case dict_get data (str ''articles'') of Some (JArr xs) \<Rightarrow> xs | _ \<Rightarrow> [])"

definition document :: "dict \<Rightarrow> bool" where
  "document data =
     (case dict_get data (str ''articles'') of
        None \<Rightarrow> True
      | Some (JArr xs) \<Rightarrow> list_all article_record xs
      | Some _ \<Rightarrow> False)"

fun insert_after :: "('a \<Rightarrow> int) \<Rightarrow> 'a \<Rightarrow> 'a list \<Rightarrow> 'a list" where
  "insert_after f x [] = [x]"
| "insert_after f x (y # ys) = (if f x < f y then x # y # ys else y # insert_after f x ys)"

definition put_article :: "json \<Rightarrow> json list \<Rightarrow> json list" where
  "put_article art xs =
     (if week_of art \<in> week_of ` set xs
      then takeWhile (\<lambda>a. week_of a \<noteq> week_of art) xs @ art #
           tl (dropWhile (\<lambda>a. week_of a \<noteq> week_of art) xs)
      else xs @ [art])"

text \<open>The end-to-end example of the specification: a document with one article, for week 1,
  \<open>completed\<close> 1 and \<open>total\<close> 10, and a new article for week 2.\<close>

definition example_document :: dict where
  "example_document =
     [(str ''articles'', JArr [JObj [(str ''week'', JInt 1), (str ''title'', JStr (str ''one''))]]),
      (str ''completed'', JInt 1),
      (str ''total'', JInt 10)]"

definition example_article :: dict where
  "example_article = [(str ''week'', JInt 2), (str ''title'', JStr (str ''two''))]"

section \<open>Text\<close>

text \<open>
  The characters \<open>str.strip()\<close>, \<open>str.lstrip()\<close> and the pattern \<open>\s\<close> take for white space
  (\<open>str.isspace\<close>): the ASCII controls 9 to 13 and 28 to 31, the space, and the Unicode
  spaces and separators.
\<close>

definition is_space :: "uchar \<Rightarrow> bool" where
  "is_space c \<longleftrightarrow>
     (9 \<le> c \<and> c \<le> 13) \<or> (28 \<le> c \<and> c \<le> 32) \<or> c = 133 \<or> c = 160 \<or> c = 5760 \<or>
     (8192 \<le> c \<and> c \<le> 8202) \<or> c = 8232 \<or> c = 8233 \<or> c = 8239 \<or> c = 8287 \<or> c = 12288"

definition lstrip :: "ustr \<Rightarrow> ustr" where
  "lstrip s = dropWhile is_space s"

definition rstrip :: "ustr \<Rightarrow> ustr" where
  "rstrip s = rev (dropWhile is_space (rev s))"

definition strip :: "ustr \<Rightarrow> ustr" where
  "strip s = rstrip (lstrip s)"

text \<open>\<open>s.strip(chars)\<close> removes the leading and trailing characters that occur in \<open>chars\<close>.\<close>

definition strip_chars :: "ustr \<Rightarrow> ustr \<Rightarrow> ustr" where
  "strip_chars chars s =
     rev (dropWhile (\<lambda>c. c \<in> set chars) (rev (dropWhile (\<lambda>c. c \<in> set chars) s)))"

definition startswith :: "ustr \<Rightarrow> ustr \<Rightarrow> bool" where
  "startswith s p \<longleftrightarrow> take (length p) s = p"

text \<open>\<open>sep.join(xs)\<close>.\<close>

fun join :: "ustr \<Rightarrow> ustr list \<Rightarrow> ustr" where
  "join sep [] = []"
| "join sep [x] = x"
| "join sep (x # y # ys) = x @ sep @ join sep (y # ys)"




section \<open>The markdown field extractor\<close>

text \<open>
  The loop of \<open>parse_question\<close>, with its variables \<open>in_q\<close> and \<open>q\<close>: a line whose first
  character after leading white space is \<open>>\<close> gives its text behind the marker, without
  the white space before that text (\<open>line.lstrip()[1:].lstrip()\<close>: the white space at the
  end of the line is kept); the first other line after such a line ends the loop.
\<close>

fun question_loop :: "bool \<Rightarrow> ustr list \<Rightarrow> ustr list \<Rightarrow> ustr list" where
  "question_loop in_q q [] = q"
| "question_loop in_q q (line # lines) =
     (if startswith (lstrip line) (str ''>'')
      then question_loop True (q @ [lstrip (drop 1 (lstrip line))]) lines
      else if in_q then q
      else question_loop in_q q lines)"

definition parse_question :: "ustr list \<Rightarrow> py_error + ustr" where
  "parse_question lines =
     (let q = question_loop False [] lines;
          question = strip (join (str ''\<newline>'') (filter (\<lambda>x. x \<noteq> []) q))
      in if question = [] then die else Inr question)"

text \<open>The loop of \<open>parse_content\<close>: the index of the first line that is \<open>---\<close> once stripped.\<close>

fun divider_loop :: "nat \<Rightarrow> ustr list \<Rightarrow> nat option" where
  "divider_loop i [] = None"
| "divider_loop i (line # lines) =
     (if strip line = str ''---'' then Some i else divider_loop (Suc i) lines)"

definition parse_content :: "ustr list \<Rightarrow> py_error + ustr" where
  "parse_content lines =
     (case divider_loop 0 lines of
        None \<Rightarrow> die
      | Some divider_idx \<Rightarrow>
          (let content = strip_chars (str ''\<newline>'') (join (str ''\<newline>'') (drop (divider_idx + 1) lines))
           in if strip content = [] then die else Inr content))"

text \<open>
  Words for the properties of the extractor: a quote line is a line whose first character
  after leading white space is the marker; its text is what follows the marker, without
  leading white space; the quote block is the first run of quote lines. Trimming drops the
  empty lines at both ends of a list of lines.
\<close>

definition is_quote_line :: "ustr \<Rightarrow> bool" where
  "is_quote_line line \<longleftrightarrow> startswith (lstrip line) (str ''>'')"

definition quote_text :: "ustr \<Rightarrow> ustr" where
  "quote_text line = lstrip (drop 1 (lstrip line))"

definition quote_block :: "ustr list \<Rightarrow> ustr list" where
  "quote_block lines = takeWhile is_quote_line (dropWhile (\<lambda>l. \<not> is_quote_line l) lines)"

definition trim_empty_lines :: "ustr list \<Rightarrow> ustr list" where
  "trim_empty_lines ls = rev (dropWhile (\<lambda>l. l = []) (rev (dropWhile (\<lambda>l. l = []) ls)))"

text \<open>The first occurrence of \<open>sub\<close> in \<open>s\<close> is at index \<open>n\<close>.\<close>

definition first_at :: "ustr \<Rightarrow> ustr \<Rightarrow> nat \<Rightarrow> bool" where
  "first_at s sub n \<longleftrightarrow>
     n \<le> length s \<and> startswith (drop n s) sub \<and>
     list_all (\<lambda>j. \<not> startswith (drop j s) sub) [0..<n]"

section \<open>Pattern matching\<close>

text \<open>
  The patterns of the script are matched as the \<open>re\<close> module does it, by backtracking. A
  greedy repetition \<open>X+\<close> first takes the longest run of characters of the class \<open>X\<close>, then
  gives them back one by one, down to one character, until the rest of the pattern matches
  what follows. \<open>backtrack rest s n\<close> tries the lengths \<open>n\<close>, \<open>n - 1\<close>, ..., 1 in this order;
  \<open>rest\<close> matches the rest of the pattern and returns what it captures.
\<close>

fun backtrack :: "(ustr \<Rightarrow> 'a option) \<Rightarrow> ustr \<Rightarrow> nat \<Rightarrow> (nat \<times> 'a) option" where
  "backtrack rest s 0 = None"
| "backtrack rest s (Suc n) =
     (case rest (drop (Suc n) s) of
        Some r \<Rightarrow> Some (Suc n, r)
      | None \<Rightarrow> backtrack rest s n)"

definition plus_then :: "(uchar \<Rightarrow> bool) \<Rightarrow> (ustr \<Rightarrow> 'a option) \<Rightarrow> ustr \<Rightarrow> (ustr \<times> 'a) option" where
  "plus_then cls rest s =
     map_option (\<lambda>(n, r). (take n s, r)) (backtrack rest s (length (takeWhile cls s)))"

text \<open>\<open>$\<close> (without \<open>re.MULTILINE\<close>) matches at the end of the text and before a line feed
  that ends the text.\<close>

definition at_end :: "ustr \<Rightarrow> bool" where
  "at_end s \<longleftrightarrow> s = [] \<or> s = str ''\<newline>''"

text \<open>\<open>.\<close> matches every character but the line feed.\<close>

definition dot :: "uchar \<Rightarrow> bool" where
  "dot c \<longleftrightarrow> c \<noteq> 10"

text \<open>
  \<open>\d\<close> matches the Unicode decimal digits, and \<open>int\<close> reads them all. The digits 0 to 9
  are the code points 48 to 57; the decimal digits of the other scripts are a table of the
  Unicode database, the parameter \<open>nd\<close>, which gives the value of such a digit.
\<close>

definition digit_value :: "(uchar \<Rightarrow> nat option) \<Rightarrow> uchar \<Rightarrow> nat option" where
  "digit_value nd c = (if 48 \<le> c \<and> c \<le> 57 then Some (c - 48) else nd c)"

text \<open>A table for examples: the Arabic-Indic digits, code points 1632 to 1641.\<close>

definition arabic_indic :: "uchar \<Rightarrow> nat option" where
  "arabic_indic c = (if 1632 \<le> c \<and> c \<le> 1641 then Some (c - 1632) else None)"

section \<open>The filename parser\<close>

text \<open>The separator of the file names, the character U+4E28.\<close>

definition separator :: uchar where
  "separator = 20008"

text \<open>
  \<open>re.match(r"^Week(\d{2})<separator>(.+)\.md$", name)\<close>: the two groups, the first as the
  values of its two digits.
\<close>

definition match_week_name :: "(uchar \<Rightarrow> nat option) \<Rightarrow> ustr \<Rightarrow> ((nat \<times> nat) \<times> ustr) option" where
  "match_week_name nd name =
     (if startswith name (str ''Week'') then
        (case drop 4 name of
           d1 # d2 # sep # s \<Rightarrow>
             (case (digit_value nd d1, digit_value nd d2) of
                (Some a, Some b) \<Rightarrow>
                  if sep = separator then
                    map_option (\<lambda>(title, u). ((a, b), title))
                      (plus_then dot
                         (\<lambda>t. if startswith t (str ''.md'') \<and> at_end (drop 3 t) then Some () else None) s)
                  else None
              | _ \<Rightarrow> None)
         | _ \<Rightarrow> None)
      else None)"

text \<open>\<open>parse_week_filename\<close>, given the name of the path: \<open>int\<close> of the two digits, and the title.\<close>

definition parse_week_filename :: "(uchar \<Rightarrow> nat option) \<Rightarrow> ustr \<Rightarrow> py_error + (int \<times> ustr)" where
  "parse_week_filename nd name =
     (case match_week_name nd name of
        None \<Rightarrow> die
      | Some ((a, b), title) \<Rightarrow> Inr (int (10 * a + b), title))"

section \<open>Searching and replacing\<close>

text \<open>\<open>s.find(sub)\<close> is the index of the first occurrence of \<open>sub\<close> in \<open>s\<close>, \<open>None\<close> standing for
  \<open>-1\<close>; \<open>s.find(sub, start)\<close> searches from \<open>start\<close> on.\<close>

fun py_find :: "ustr \<Rightarrow> ustr \<Rightarrow> nat option" where
  "py_find [] sub = (if sub = [] then Some 0 else None)"
| "py_find (c # cs) sub =
     (if startswith (c # cs) sub then Some 0 else map_option Suc (py_find cs sub))"

definition py_find_from :: "ustr \<Rightarrow> ustr \<Rightarrow> nat \<Rightarrow> nat option" where
  "py_find_from s sub start =
     (if start \<le> length s then map_option (\<lambda>i. start + i) (py_find (drop start s) sub)
      else None)"

text \<open>
  \<open>s.replace(old, new)\<close> replaces the occurrences of \<open>old\<close> from left to right, an
  occurrence starting only behind the one before it. \<open>skip\<close> counts the characters of
  the occurrence just replaced that are still to be passed over. An empty \<open>old\<close> puts
  \<open>new\<close> before every character and at the end.
\<close>

fun replace_from :: "ustr \<Rightarrow> ustr \<Rightarrow> nat \<Rightarrow> ustr \<Rightarrow> ustr" where
  "replace_from old new skip [] = []"
| "replace_from old new (Suc skip) (c # cs) = replace_from old new skip cs"
| "replace_from old new 0 (c # cs) =
     (if startswith (c # cs) old then new @ replace_from old new (length old - 1) cs
      else c # replace_from old new 0 cs)"

definition py_replace :: "ustr \<Rightarrow> ustr \<Rightarrow> ustr \<Rightarrow> ustr" where
  "py_replace s old new =
     (if old = [] then new @ concat (map (\<lambda>c. c # new) s) else replace_from old new 0 s)"

section \<open>Paths and files\<close>

text \<open>
  A path is the list of its components below the root of the file system; all paths of the
  script are absolute. \<open>pathlib\<close> splits a path text at \<open>/\<close> and drops the empty components
  and the components \<open>.\<close>; a text that starts with \<open>/\<close> is absolute, and joining it to a
  path gives the absolute path alone. \<open>resolve\<close> removes the components \<open>..\<close> together with
  the component before them, as it does where no component is a symbolic link.
\<close>

type_synonym path = "ustr list"

fun split_from :: "uchar \<Rightarrow> ustr \<Rightarrow> ustr \<Rightarrow> ustr list" where
  "split_from sep cur [] = [cur]"
| "split_from sep cur (c # cs) =
     (if c = sep then cur # split_from sep [] cs else split_from sep (cur @ [c]) cs)"

definition split_on :: "ustr \<Rightarrow> uchar \<Rightarrow> ustr list" where
  "split_on s sep = split_from sep [] s"

definition parse_path :: "ustr \<Rightarrow> path" where
  "parse_path s = filter (\<lambda>c. c \<noteq> [] \<and> c \<noteq> str ''.'') (split_on s 47)"






text \<open>\<open>name.rfind('.')\<close>, and the suffix of a name: what starts at its last dot, unless that
  dot is the first or the last character of the name.\<close>

definition rfind_dot :: "ustr \<Rightarrow> nat option" where
  "rfind_dot name =
     (if 46 \<in> set name then Some (length name - 1 - length (takeWhile (\<lambda>c. c \<noteq> 46) (rev name)))
      else None)"

definition name_suffix :: "ustr \<Rightarrow> ustr" where
  "name_suffix name =
     (case rfind_dot name of
        None \<Rightarrow> []
      | Some i \<Rightarrow> if 0 < i \<and> i < length name - 1 then drop i name else [])"


definition name_stem :: "ustr \<Rightarrow> ustr" where
  "name_stem name = take (length name - length (name_suffix name)) name"



text \<open>
  The file system says what is at a path: a file of text, a file that is not UTF-8 text, a
  directory, or nothing. The world of a run is the file system; what the script prints is
  left out.
\<close>

datatype node = File ustr | Binary | Directory

record world =
  fs :: "path \<Rightarrow> node option"


text \<open>An action of the script either raises or returns a value, and leaves a world.\<close>

type_synonym 'a io = "world \<Rightarrow> (py_error + 'a) \<times> world"


definition io_raise :: "py_error \<Rightarrow> 'a io" where
  "io_raise e w = (Inl e, w)"






text \<open>
  What the script takes from outside its source: the table of the decimal digits beyond
  ASCII, \<open>json.loads\<close> (\<open>None\<close> when it raises), \<open>json.dumps\<close> with \<open>indent=2\<close> and with the
  separators \<open>","\<close> and \<open>": "\<close> (both with \<open>ensure_ascii=False\<close>), and the command \<open>cwebp\<close>,
  which is given the quality, the source and the output path and either fails (\<open>None\<close>: the
  command is missing or exits with a code other than 0) or leaves a world.
\<close>

record env =
  nd :: "uchar \<Rightarrow> nat option"
  json_loads :: "ustr \<Rightarrow> json option"
  json_dumps_indent :: "json \<Rightarrow> ustr"
  json_dumps_compact :: "json \<Rightarrow> ustr"
  cwebp :: "int \<Rightarrow> path \<Rightarrow> path \<Rightarrow> world \<Rightarrow> world option"

section \<open>The cover reference\<close>






section \<open>The asset converter\<close>
















section \<open>The HTML syncer\<close>

definition marker :: ustr where
  "marker = str ''<script id=\"articles-data\" type=\"application/json\">''"

definition closing_tag :: ustr where
  "closing_tag = str ''</script>''"

text \<open>The text \<open><\/script>\<close> that takes the place of the closing tag in the inline JSON.\<close>

definition escaped_tag :: ustr where
  "escaped_tag = str ''<'' @ [92] @ str ''/script>''"

text \<open>What \<open>sync_inline_json\<close> writes, given the text it has read.\<close>

definition inline_json :: "env \<Rightarrow> dict \<Rightarrow> ustr" where
  "inline_json e data = py_replace (json_dumps_compact e (JObj data)) closing_tag escaped_tag"

definition synced_html :: "env \<Rightarrow> ustr \<Rightarrow> dict \<Rightarrow> py_error + ustr" where
  "synced_html e html data =
     (case py_find html marker of
        None \<Rightarrow> die
      | Some start0 \<Rightarrow>
          (let start = start0 + length marker in
           case py_find_from html closing_tag start of
             None \<Rightarrow> die
           | Some end \<Rightarrow> Inr (take start html @ inline_json e data @ drop end html)))"


section \<open>The run\<close>









text \<open>The file name of a week: \<open>Week\<close>, two digits, the separator, the title and \<open>.md\<close>.\<close>

definition week_name :: "uchar \<Rightarrow> uchar \<Rightarrow> ustr \<Rightarrow> ustr" where
  "week_name d1 d2 title = str ''Week'' @ [d1, d2, separator] @ title @ str ''.md''"








definition webp_components :: "ustr \<Rightarrow> ustr \<Rightarrow> path" where
  "webp_components base ext =
     (let comps = parse_path (drop 2 (base @ str ''.'' @ ext))
      in butlast comps @ [name_stem (last comps) @ str ''.webp''])"


definition webp_reference :: "ustr \<Rightarrow> ustr \<Rightarrow> ustr" where
  "webp_reference base ext = str ''./'' @ join (str ''/'') (webp_components base ext)"



text \<open>
  A reference is clean when the path behind \<open>./\<close> has no empty component and no component
  \<open>.\<close> before its last one (no \<open>//\<close> and no \<open>/./\<close>), and its last component has a character
  other than a dot.
\<close>

definition clean_reference :: "ustr \<Rightarrow> bool" where
  "clean_reference base \<longleftrightarrow>
     list_all (\<lambda>c. c \<noteq> [] \<and> c \<noteq> str ''.'') (butlast (split_on (drop 2 base) 47)) \<and>
     \<not> list_all (\<lambda>c. c = 46) (last (split_on (drop 2 base) 47))"

section \<open>An environment for examples\<close>









text \<open>A page with the script element of the article data.\<close>

definition example_html :: ustr where
  "example_html = str ''<p>'' @ marker @ str ''old'' @ closing_tag @ str ''</p>''"











lemma bind_Inr [simp]: "bind (Inr x) f = f x"
  by (simp add: bind_def)

lemma bind_Inl [simp]: "bind (Inl e) f = Inl e"
  by (simp add: bind_def)

lemma py_insert_int:
  "py_insert (JInt (f x), x) (map (\<lambda>a. (JInt (f a), a)) ys)
     = Inr (map (\<lambda>a. (JInt (f a), a)) (insert_after f x ys))"
  by (induction ys) simp_all

lemma py_sort_keyed_int:
  "py_sort_keyed (map (\<lambda>a. (JInt (f a), a)) acc) (map (\<lambda>a. (JInt (f a), a)) xs)
     = Inr (map (\<lambda>a. (JInt (f a), a)) (foldl (\<lambda>zs x. insert_after f x zs) acc xs))"
proof (induction xs arbitrary: acc)
  case Nil
  show ?case by simp
next
  case (Cons x xs)
  show ?case using Cons.IH [of "insert_after f x acc"] by (simp add: py_insert_int)
qed

lemma mset_insert_after: "mset (insert_after f x ys) = add_mset x (mset ys)"
  by (induction ys) simp_all

lemma set_insert_after: "set (insert_after f x ys) = insert x (set ys)"
  by (induction ys) auto

lemma sorted_insert_after:
  "sorted (map f ys) \<Longrightarrow> sorted (map f (insert_after f x ys))"
  by (induction ys) (auto simp: set_insert_after)

lemma filter_insert_after:
  "sorted (map f ys) \<Longrightarrow>
   filter (\<lambda>a. k = f a) (insert_after f x ys) = filter (\<lambda>a. k = f a) (ys @ [x])"
proof (induction ys)
  case Nil
  show ?case by simp
next
  case (Cons y ys)
  show ?case
  proof (cases "f x < f y")
    case True
    with Cons.prems have "\<forall>a \<in> set (y # ys). f x < f a" by auto
    then have "filter (\<lambda>a. f x = f a) (y # ys) = []" by (auto simp: filter_empty_conv)
    with True show ?thesis by (cases "k = f x") auto
  next
    case False
    from Cons.prems have "sorted (map f ys)" by simp
    then have "filter (\<lambda>a. k = f a) (insert_after f x ys) = filter (\<lambda>a. k = f a) (ys @ [x])"
      by (rule Cons.IH)
    with False show ?thesis by (cases "k = f y") simp_all
  qed
qed

lemma foldl_insert_after:
  "sorted (map f acc) \<Longrightarrow>
   foldl (\<lambda>zs x. insert_after f x zs) acc xs = sort_key f (acc @ xs)"
proof (induction xs arbitrary: acc)
  case Nil
  then show ?case by (simp add: sort_key_id_if_sorted)
next
  case (Cons x xs)
  have s: "sorted (map f (insert_after f x acc))"
    using Cons.prems by (rule sorted_insert_after)
  have "sort_key f (acc @ x # xs) = sort_key f (insert_after f x acc @ xs)"
  proof (rule properties_for_sort_key)
    show "mset (sort_key f (insert_after f x acc @ xs)) = mset (acc @ x # xs)"
      by (simp add: mset_insert_after)
    show "sorted (map f (sort_key f (insert_after f x acc @ xs)))"
      by simp
    fix k
    show "filter (\<lambda>a. f k = f a) (sort_key f (insert_after f x acc @ xs))
        = filter (\<lambda>a. f k = f a) (acc @ x # xs)"
      using sort_key_stable [of f "f k" "insert_after f x acc @ xs"]
        filter_insert_after [OF Cons.prems, of "f k" x]
      by (simp add: eq_commute [of "f k"])
  qed
  with Cons.IH [OF s] show ?case by simp
qed

lemma map_result_key:
  "list_all article_record xs \<Longrightarrow>
   map_result (\<lambda>x. bind (obj_get x (str ''week'') (JInt 0)) (\<lambda>k. Inr (k, x))) xs
     = Inr (map (\<lambda>a. (JInt (week_of a), a)) xs)"
proof (induction xs)
  case Nil
  show ?case by simp
next
  case (Cons a xs)
  then obtain d where "a = JObj d" by (cases a) auto
  with Cons show ?case
    by (auto simp: dict_get_default_def split: option.splits json.splits)
qed

lemma py_sort_week:
  assumes "list_all article_record xs"
  shows "py_sort (\<lambda>a. obj_get a (str ''week'') (JInt 0)) xs = Inr (sort_key week_of xs)"
proof -
  have "py_sort_keyed [] (map (\<lambda>a. (JInt (week_of a), a)) xs)
      = Inr (map (\<lambda>a. (JInt (week_of a), a)) (sort_key week_of xs))"
    using py_sort_keyed_int [of week_of "[]" xs] foldl_insert_after [of week_of "[]" xs]
    by simp
  then show ?thesis
    by (simp add: py_sort_def map_result_key [OF assms] o_def)
qed

lemma obj_get_week:
  "article_record a \<Longrightarrow> obj_get a (str ''week'') JNull = Inr (JInt (week_of a))"
  by (cases a) (auto simp: dict_get_default_def split: option.splits json.splits)

lemma replace_week_record:
  "list_all article_record xs \<Longrightarrow>
   replace_week (JInt w) art xs =
     Inr (if w \<in> week_of ` set xs
          then (takeWhile (\<lambda>a. week_of a \<noteq> w) xs @ art # tl (dropWhile (\<lambda>a. week_of a \<noteq> w) xs), True)
          else (xs, False))"
  by (induction xs) (auto simp: obj_get_week)

lemma dict_get_set_same: "dict_get (dict_set d k v) k = Some v"
  by (induction d) (auto simp: dict_get_def)

lemma dict_get_set_other: "k' \<noteq> k \<Longrightarrow> dict_get (dict_set d k v) k' = dict_get d k'"
  by (induction d) (auto simp: dict_get_def)

lemma dict_set_same: "dict_get d k = Some v \<Longrightarrow> dict_set d k v = d"
  by (induction d) (auto simp: dict_get_def split: if_splits)

lemma articles_neq_completed: "str ''articles'' \<noteq> str ''completed''"
  by (simp add: str_def)

lemma set_tl_dropWhile: "x \<in> set (tl (dropWhile P xs)) \<Longrightarrow> x \<in> set xs"
  by (induction xs) (auto split: if_splits)

lemma put_article_records:
  "list_all article_record xs \<Longrightarrow> article_record art \<Longrightarrow>
   list_all article_record (put_article art xs)"
  by (auto simp: put_article_def list_all_iff dest: set_takeWhileD set_tl_dropWhile)

lemma upsert_article_document:
  assumes "document data" and "article_record (JObj article)"
  shows "upsert_article data article =
     Inr (dict_set (dict_set data (str ''articles'')
            (JArr (sort_key week_of (put_article (JObj article) (articles_of data)))))
          (str ''completed'')
          (JInt (int (length (sort_key week_of (put_article (JObj article) (articles_of data)))))))"
proof -
  let ?old = "articles_of data"
  have l: "py_list (dict_get_default data (str ''articles'') (JArr [])) = Inr ?old"
    and r: "list_all article_record ?old"
    using assms(1)
    by (auto simp: document_def articles_of_def dict_get_default_def split: option.splits json.splits)
  have w: "dict_get_default article (str ''week'') JNull = JInt (week_of (JObj article))"
    using assms(2) by (auto simp: dict_get_default_def split: option.splits json.splits)
  have p: "list_all article_record (put_article (JObj article) ?old)"
    using r assms(2) by (rule put_article_records)
  have q: "replace_week (JInt (week_of (JObj article))) (JObj article) ?old =
      Inr (if week_of (JObj article) \<in> week_of ` set ?old
           then (put_article (JObj article) ?old, True) else (?old, False))"
    by (simp add: replace_week_record [OF r] put_article_def)
  show ?thesis
  proof (cases "week_of (JObj article) \<in> week_of ` set ?old")
    case True
    with q have "replace_week (JInt (week_of (JObj article))) (JObj article) ?old =
      Inr (put_article (JObj article) ?old, True)" by simp
    then show ?thesis
      unfolding upsert_article_def l w by (simp add: py_sort_week [OF p])
  next
    case False
    with q have "replace_week (JInt (week_of (JObj article))) (JObj article) ?old =
      Inr (?old, False)" by simp
    moreover from False have "put_article (JObj article) ?old = ?old @ [JObj article]"
      by (simp add: put_article_def)
    ultimately show ?thesis
      unfolding upsert_article_def l w using py_sort_week [OF p] by simp
  qed
qed

lemma put_article_update:
  assumes "week_of art \<in> week_of ` set xs"
  defines "i \<equiv> length (takeWhile (\<lambda>a. week_of a \<noteq> week_of art) xs)"
  shows "i < length xs" and "week_of (xs ! i) = week_of art"
    and "\<forall>j<i. week_of (xs ! j) \<noteq> week_of art"
    and "put_article art xs = xs[i := art]"
proof -
  let ?P = "\<lambda>a. week_of a \<noteq> week_of art"
  from assms(1) have "\<exists>x \<in> set xs. \<not> ?P x" by auto
  then show lt: "i < length xs"
    unfolding i_def by (induction xs) auto
  then show "week_of (xs ! i) = week_of art"
    unfolding i_def using nth_length_takeWhile [of ?P xs] by simp
  show "\<forall>j<i. week_of (xs ! j) \<noteq> week_of art"
  proof (intro allI impI)
    fix j assume "j < i"
    then have "j < length (takeWhile ?P xs)" by (simp add: i_def)
    then have "takeWhile ?P xs ! j \<in> set (takeWhile ?P xs)"
      and "takeWhile ?P xs ! j = xs ! j"
      by (rule nth_mem, rule takeWhile_nth)
    then have "?P (xs ! j)" by (metis set_takeWhileD)
    then show "week_of (xs ! j) \<noteq> week_of art" .
  qed
  have "takeWhile ?P xs = take i xs" and "dropWhile ?P xs = drop i xs"
    unfolding i_def by (rule takeWhile_eq_take, rule dropWhile_eq_drop)
  then show "put_article art xs = xs[i := art]"
    using lt assms(1) by (simp add: put_article_def upd_conv_take_nth_drop drop_Suc tl_drop)
qed

lemma hd_filter_put_article:
  "filter (\<lambda>a. week_of a = week_of art) (put_article art xs) \<noteq> [] \<and>
   hd (filter (\<lambda>a. week_of a = week_of art) (put_article art xs)) = art"
proof -
  have "filter (\<lambda>a. week_of a = week_of art)
          (takeWhile (\<lambda>a. week_of a \<noteq> week_of art) xs) = []"
    by (auto simp: filter_empty_conv dest: set_takeWhileD)
  moreover have "week_of art \<notin> week_of ` set xs \<Longrightarrow>
      filter (\<lambda>a. week_of a = week_of art) xs = []"
    by (induction xs) auto
  ultimately show ?thesis by (simp add: put_article_def)
qed

lemma hd_dropWhile_filter:
  "filter P xs \<noteq> [] \<Longrightarrow>
   dropWhile (\<lambda>x. \<not> P x) xs \<noteq> [] \<and> hd (dropWhile (\<lambda>x. \<not> P x) xs) = hd (filter P xs)"
  by (induction xs) auto

lemma put_article_sorted_again:
  "put_article art (sort_key week_of (put_article art xs)) = sort_key week_of (put_article art xs)"
proof -
  let ?ys = "put_article art xs"
  let ?zs = "sort_key week_of ?ys"
  let ?P = "\<lambda>a. week_of a = week_of art"
  have f: "filter ?P ?zs = filter ?P ?ys"
    by (rule sort_key_stable)
  with hd_filter_put_article [of art xs]
  have ne: "filter ?P ?zs \<noteq> []" and h: "hd (filter ?P ?zs) = art" by simp_all
  from hd_dropWhile_filter [OF ne] h
  have d: "dropWhile (\<lambda>a. week_of a \<noteq> week_of art) ?zs \<noteq> []"
    and e: "hd (dropWhile (\<lambda>a. week_of a \<noteq> week_of art) ?zs) = art" by simp_all
  from ne obtain z where "z \<in> set ?zs" and "week_of z = week_of art"
    by (auto simp: filter_empty_conv)
  then have "week_of art \<in> week_of ` set ?zs"
    by (metis imageI)
  then have "put_article art ?zs =
      takeWhile (\<lambda>a. week_of a \<noteq> week_of art) ?zs @
      hd (dropWhile (\<lambda>a. week_of a \<noteq> week_of art) ?zs) #
      tl (dropWhile (\<lambda>a. week_of a \<noteq> week_of art) ?zs)"
    by (simp add: put_article_def [of art ?zs] e)
  also have "\<dots> = ?zs" using d by simp
  finally show ?thesis .
qed

lemma bind_eq_Inr: "bind m f = Inr y \<longleftrightarrow> (\<exists>x. m = Inr x \<and> f x = Inr y)"
  by (cases m) (simp_all add: bind_def)

lemma upsert_article_frame:
  assumes "upsert_article data article = Inr data'"
    and "k \<noteq> str ''articles''" and "k \<noteq> str ''completed''"
  shows "dict_get data' k = dict_get data k"
  using assms
  by (auto simp: upsert_article_def bind_eq_Inr Let_def dict_get_set_other split: prod.splits)

lemma articles_of_upsert:
  "articles_of (dict_set (dict_set data (str ''articles'') (JArr xs)) (str ''completed'') v) = xs"
  using articles_neq_completed
  by (simp add: articles_of_def dict_get_set_other dict_get_set_same)

lemma example_document_ok: "document example_document"
  by (simp add: document_def example_document_def dict_get_def str_def)

lemma example_article_ok: "article_record (JObj example_article)"
  by (simp add: example_article_def dict_get_def str_def)

lemma example_articles:
  "articles_of example_document =
     [JObj [(str ''week'', JInt 1), (str ''title'', JStr (str ''one''))]]"
  by (simp add: articles_of_def example_document_def dict_get_def str_def)

lemma example_weeks:
  "week_of (JObj example_article) = 2"
  "week_of (JObj [(str ''week'', JInt 1), (str ''title'', JStr (str ''one''))]) = 1"
  by (simp_all add: example_article_def dict_get_def str_def)

lemma document_upsert:
  "list_all article_record xs \<Longrightarrow>
   document (dict_set (dict_set data (str ''articles'') (JArr xs)) (str ''completed'') v)"
  using articles_neq_completed
  by (simp add: document_def dict_get_set_other dict_get_set_same)

lemma question_loop_in:
  "question_loop True q lines = q @ map quote_text (takeWhile is_quote_line lines)"
  by (induction lines arbitrary: q) (simp_all add: is_quote_line_def quote_text_def)

lemma question_loop_out:
  "question_loop False q lines = q @ map quote_text (quote_block lines)"
  by (induction lines arbitrary: q)
    (simp_all add: quote_block_def question_loop_in, simp_all add: is_quote_line_def quote_text_def)

lemma dropWhile_all: "\<forall>x \<in> set xs. P x \<Longrightarrow> dropWhile P xs = []"
  by (induction xs) auto

lemma quote_block_Nil: "\<forall>l \<in> set lines. \<not> is_quote_line l \<Longrightarrow> quote_block lines = []"
  by (simp add: quote_block_def dropWhile_all)

lemma strip_Nil: "strip [] = []"
  by (simp add: strip_def lstrip_def rstrip_def)

lemma divider_loop_index:
  "divider_loop i lines =
     (if \<exists>l \<in> set lines. strip l = d0 then
        Some (i + length (takeWhile (\<lambda>l. strip l \<noteq> str ''---'') lines))
      else None)" if "d0 = str ''---''"
  using that by (induction lines arbitrary: i) auto

lemma drop_takeWhile_tl: "drop (length (takeWhile P xs) + 1) xs = tl (dropWhile P xs)"
  by (induction xs) auto

lemma strip_empty_iff: "strip s = [] \<longleftrightarrow> list_all is_space s"
proof -
  have "strip s = [] \<longleftrightarrow> (\<forall>c \<in> set (dropWhile is_space s). is_space c)"
    by (simp add: strip_def lstrip_def rstrip_def dropWhile_eq_Nil_conv)
  also have "\<dots> \<longleftrightarrow> (\<forall>c \<in> set s. is_space c)"
    by (induction s) auto
  finally show ?thesis by (simp add: list_all_iff)
qed

lemma all_dropWhile:
  assumes "\<And>c. P c \<Longrightarrow> Q c"
  shows "(\<forall>c \<in> set (dropWhile P s). Q c) \<longleftrightarrow> (\<forall>c \<in> set s. Q c)"
  using assms by (induction s) auto

lemma strip_chars_newline_space:
  "list_all is_space (strip_chars (str ''\<newline>'') s) \<longleftrightarrow> list_all is_space s"
proof -
  have n: "\<And>c. c \<in> set (str ''\<newline>'') \<Longrightarrow> is_space c"
    by (simp add: str_def is_space_def)
  show ?thesis
    unfolding strip_chars_def list_all_iff set_rev
    by (simp only: all_dropWhile [of "\<lambda>c. c \<in> set (str ''\<newline>'')" is_space, OF n] set_rev)
qed

lemma parse_content_divider:
  "parse_content lines =
     (case dropWhile (\<lambda>l. strip l \<noteq> str ''---'') lines of
        [] \<Rightarrow> Inl (SystemExit 1)
      | d # rest \<Rightarrow>
          if list_all is_space (join (str ''\<newline>'') rest) then Inl (SystemExit 1)
          else Inr (strip_chars (str ''\<newline>'') (join (str ''\<newline>'') rest)))"
proof (cases "\<exists>l \<in> set lines. strip l = str ''---''")
  case True
  then have "dropWhile (\<lambda>l. strip l \<noteq> str ''---'') lines \<noteq> []"
    by (simp add: dropWhile_eq_Nil_conv)
  then obtain d rest where dr: "dropWhile (\<lambda>l. strip l \<noteq> str ''---'') lines = d # rest"
    by (cases "dropWhile (\<lambda>l. strip l \<noteq> str ''---'') lines") auto
  have "drop (length (takeWhile (\<lambda>l. strip l \<noteq> str ''---'') lines) + 1) lines = rest"
    by (simp only: drop_takeWhile_tl dr list.sel)
  with True dr show ?thesis
    by (simp add: parse_content_def divider_loop_index [OF refl] Let_def die_def
        strip_empty_iff strip_chars_newline_space)
next
  case False
  then show ?thesis
    by (simp add: parse_content_def divider_loop_index [OF refl] die_def dropWhile_all)
qed

lemma dropWhile_newline_join:
  "\<forall>l \<in> set xs. 10 \<notin> set l \<Longrightarrow>
   dropWhile (\<lambda>c. c = 10) (join [10] xs) = join [10] (dropWhile (\<lambda>l. l = []) xs)"
proof (induction "[10::nat]" xs rule: join.induct)
  case 1
  show ?case by simp
next
  case (2 x)
  then show ?case by (cases x) auto
next
  case (3 x y ys)
  then show ?case by (cases x) auto
qed

lemma join_snoc: "join sep (xs @ [x]) = (if xs = [] then x else join sep xs @ sep @ x)"
  by (induction sep xs rule: join.induct) auto

lemma join_Cons: "join sep (x # xs) = (if xs = [] then x else x @ sep @ join sep xs)"
  by (cases xs) simp_all

lemma rev_join: "rev (join sep xs) = join (rev sep) (rev (map rev xs))"
  by (induction xs) (simp_all add: join_Cons join_snoc)

lemma strip_newlines_join:
  assumes "\<forall>l \<in> set xs. 10 \<notin> set l"
  shows "strip_chars (str ''\<newline>'') (join (str ''\<newline>'') xs) = join (str ''\<newline>'') (trim_empty_lines xs)"
proof -
  let ?ys = "dropWhile (\<lambda>l. l = []) xs"
  have n: "str ''\<newline>'' = [10]" by (simp add: str_def)
  have ys: "\<forall>l \<in> set (rev (map rev ?ys)). 10 \<notin> set l"
    using assms by (auto dest: set_dropWhileD)
  have "strip_chars [10] (join [10] xs) = rev (dropWhile (\<lambda>c. c = 10) (rev (join [10] ?ys)))"
    by (simp add: strip_chars_def dropWhile_newline_join [OF assms])
  also have "rev (join [10] ?ys) = join [10] (rev (map rev ?ys))"
    by (simp add: rev_join)
  also have "dropWhile (\<lambda>c. c = 10) \<dots> = join [10] (dropWhile (\<lambda>l. l = []) (rev (map rev ?ys)))"
    using ys by (rule dropWhile_newline_join)
  also have "dropWhile (\<lambda>l. l = []) (rev (map rev ?ys)) = map rev (dropWhile (\<lambda>l. l = []) (rev ?ys))"
    by (simp add: rev_map dropWhile_map o_def)
  also have "rev (join [10] (map rev (dropWhile (\<lambda>l. l = []) (rev ?ys)))) = join [10] (trim_empty_lines xs)"
    by (simp add: rev_join rev_map [symmetric] o_def trim_empty_lines_def)
  finally show ?thesis by (simp add: n)
qed

section \<open>Facts about universal newlines\<close>










section \<open>Properties of the data-store updater\<close>

text \<open>
  Claim C1. For a document (its \<open>articles\<close>, when present, a list of records with an integer
  week) and an article record, \<open>upsert_article\<close> returns. When some record has the week of
  the new one, the first such record (at index \<open>i\<close>) is overwritten by the new record as a
  whole and the size of the collection stays; otherwise the new record is put last and the
  size grows by one. The collection is then sorted by week (a stable sort), so it is
  ascending by week, and \<open>completed\<close> is the number of records.
\<close>

theorem upsert_article_replaces_or_appends:
  assumes "document data" and "article_record (JObj article)"
  shows "\<exists>data'. upsert_article data article = Inr data' \<and>
     (if week_of (JObj article) \<in> week_of ` set (articles_of data)
      then (\<exists>i<length (articles_of data).
              week_of (articles_of data ! i) = week_of (JObj article) \<and>
              (\<forall>j<i. week_of (articles_of data ! j) \<noteq> week_of (JObj article)) \<and>
              articles_of data' = sort_key week_of ((articles_of data)[i := JObj article])) \<and>
           length (articles_of data') = length (articles_of data)
      else articles_of data' = sort_key week_of (articles_of data @ [JObj article]) \<and>
           length (articles_of data') = length (articles_of data) + 1) \<and>
     sorted (map week_of (articles_of data')) \<and>
     dict_get data' (str ''completed'') = Some (JInt (int (length (articles_of data'))))"
proof -
  let ?art = "JObj article" and ?old = "articles_of data"
  let ?new = "sort_key week_of (put_article ?art ?old)"
  let ?data' = "dict_set (dict_set data (str ''articles'') (JArr ?new))
                  (str ''completed'') (JInt (int (length ?new)))"
  have u: "upsert_article data article = Inr ?data'"
    using assms by (rule upsert_article_document)
  have n: "articles_of ?data' = ?new"
    by (rule articles_of_upsert)
  have c: "dict_get ?data' (str ''completed'') = Some (JInt (int (length (articles_of ?data'))))"
    unfolding n by (rule dict_get_set_same)
  have s: "sorted (map week_of (articles_of ?data'))"
    unfolding n by simp
  have b: "if week_of ?art \<in> week_of ` set ?old
      then (\<exists>i<length ?old. week_of (?old ! i) = week_of ?art \<and>
              (\<forall>j<i. week_of (?old ! j) \<noteq> week_of ?art) \<and>
              articles_of ?data' = sort_key week_of (?old[i := ?art])) \<and>
           length (articles_of ?data') = length ?old
      else articles_of ?data' = sort_key week_of (?old @ [?art]) \<and>
           length (articles_of ?data') = length ?old + 1"
  proof (cases "week_of ?art \<in> week_of ` set ?old")
    case True
    note p = put_article_update [OF True]
    from p(4) have "length (articles_of ?data') = length ?old"
      unfolding n by simp
    with True p show ?thesis unfolding n by auto
  next
    case False
    then have "put_article ?art ?old = ?old @ [?art]" by (simp add: put_article_def)
    with False show ?thesis unfolding n by simp
  qed
  from u b s c show ?thesis by blast
qed

theorem upsert_article_replaces_or_appends_witness:
  "document example_document \<and> article_record (JObj example_article) \<and>
   (\<exists>data'. upsert_article example_document example_article = Inr data' \<and>
      map week_of (articles_of data') = [1, 2] \<and>
      length (articles_of data') = length (articles_of example_document) + 1 \<and>
      dict_get data' (str ''completed'') = Some (JInt 2))"
proof -
  have n: "week_of (JObj example_article) \<notin> week_of ` set (articles_of example_document)"
    by (simp add: example_articles example_weeks del: week_of.simps)
  from upsert_article_replaces_or_appends [OF example_document_ok example_article_ok]
  obtain data' where u: "upsert_article example_document example_article = Inr data'"
    and a: "articles_of data' = sort_key week_of (articles_of example_document @ [JObj example_article])"
    and l: "length (articles_of data') = length (articles_of example_document) + 1"
    and c: "dict_get data' (str ''completed'') = Some (JInt (int (length (articles_of data'))))"
    using n by auto
  from a have "map week_of (articles_of data') = [1, 2]"
    by (simp add: example_articles example_weeks del: week_of.simps)
  moreover from l c have "dict_get data' (str ''completed'') = Some (JInt 2)"
    by (simp add: example_articles)
  ultimately show ?thesis
    using u l example_document_ok example_article_ok
    by (intro conjI exI [of _ data']) assumption+
qed

text \<open>
  Claim C2. Uniqueness is kept: when no two records of the document have the same week,
  no two records have the same week after \<open>upsert_article\<close>.
\<close>

theorem upsert_article_keeps_weeks_unique:
  assumes "document data" and "article_record (JObj article)"
    and "distinct (map week_of (articles_of data))"
  shows "\<exists>data'. upsert_article data article = Inr data' \<and>
           distinct (map week_of (articles_of data'))"
proof -
  let ?art = "JObj article" and ?old = "articles_of data"
  let ?new = "sort_key week_of (put_article ?art ?old)"
  have "mset (map week_of ?new) = mset (map week_of (put_article ?art ?old))"
    by simp
  then have "distinct (map week_of ?new) = distinct (map week_of (put_article ?art ?old))"
    by (rule mset_eq_imp_distinct_iff)
  moreover have "distinct (map week_of (put_article ?art ?old))"
  proof (cases "week_of ?art \<in> week_of ` set ?old")
    case True
    note p = put_article_update [OF True]
    from p(1,2) have "map week_of (?old[length (takeWhile (\<lambda>a. week_of a \<noteq> week_of ?art) ?old) := ?art])
        = map week_of ?old"
      by (simp add: map_update list_update_same_conv)
    with p(4) assms(3) show ?thesis by simp
  next
    case False
    with assms(3) show ?thesis by (simp add: put_article_def)
  qed
  ultimately have "distinct (map week_of ?new)" by simp
  with upsert_article_document [OF assms(1,2)] show ?thesis
    by (simp add: articles_of_upsert)
qed

theorem upsert_article_keeps_weeks_unique_witness:
  "document example_document \<and> article_record (JObj example_article) \<and>
   distinct (map week_of (articles_of example_document)) \<and>
   (\<exists>data'. upsert_article example_document example_article = Inr data' \<and>
      distinct (map week_of (articles_of data')))"
proof -
  have d: "distinct (map week_of (articles_of example_document))"
    by (simp add: example_articles)
  from upsert_article_keeps_weeks_unique [OF example_document_ok example_article_ok d]
    example_document_ok example_article_ok d
  show ?thesis by simp
qed

text \<open>
  Claim C9. \<open>upsert_article\<close> assigns to the keys \<open>articles\<close> and \<open>completed\<close> only: every
  other key of the document reads as before, \<open>total\<close> among them.
\<close>

theorem upsert_article_leaves_other_fields:
  assumes "document data" and "article_record (JObj article)"
  shows "\<exists>data'. upsert_article data article = Inr data' \<and>
           (\<forall>k. k \<noteq> str ''articles'' \<and> k \<noteq> str ''completed'' \<longrightarrow>
                dict_get data' k = dict_get data k) \<and>
           dict_get data' (str ''total'') = dict_get data (str ''total'')"
proof -
  from upsert_article_document [OF assms]
  obtain data' where u: "upsert_article data article = Inr data'" by blast
  have "str ''total'' \<noteq> str ''articles''" and "str ''total'' \<noteq> str ''completed''"
    by (simp_all add: str_def)
  then have "dict_get data' (str ''total'') = dict_get data (str ''total'')"
    by (rule upsert_article_frame [OF u])
  with u show ?thesis
    by (blast intro: upsert_article_frame)
qed

theorem upsert_article_leaves_other_fields_witness:
  "document example_document \<and> article_record (JObj example_article) \<and>
   (\<exists>data'. upsert_article example_document example_article = Inr data' \<and>
      dict_get data' (str ''total'') = Some (JInt 10))"
proof -
  have t: "dict_get example_document (str ''total'') = Some (JInt 10)"
    by (simp add: example_document_def dict_get_def str_def)
  from upsert_article_leaves_other_fields [OF example_document_ok example_article_ok]
  obtain data' where "upsert_article example_document example_article = Inr data'"
    and "dict_get data' (str ''total'') = dict_get example_document (str ''total'')"
    by blast
  with t example_document_ok example_article_ok show ?thesis
    by (intro conjI exI [of _ data']) simp_all
qed

text \<open>
  Claim C10. Upserting the same record a second time gives the document of the first
  upsert again.
\<close>

theorem upsert_article_idempotent:
  assumes "document data" and "article_record (JObj article)"
  shows "\<exists>data'. upsert_article data article = Inr data' \<and>
           upsert_article data' article = Inr data'"
proof -
  let ?art = "JObj article" and ?old = "articles_of data"
  let ?new = "sort_key week_of (put_article ?art ?old)"
  let ?data' = "dict_set (dict_set data (str ''articles'') (JArr ?new))
                  (str ''completed'') (JInt (int (length ?new)))"
  have u: "upsert_article data article = Inr ?data'"
    using assms by (rule upsert_article_document)
  have r: "list_all article_record ?old"
    using assms(1)
    by (auto simp: document_def articles_of_def split: option.splits json.splits)
  then have "list_all article_record (put_article ?art ?old)"
    using assms(2) by (rule put_article_records)
  then have "list_all article_record ?new"
    by (simp add: list_all_iff)
  then have d: "document ?data'"
    by (rule document_upsert)
  have n: "articles_of ?data' = ?new"
    by (rule articles_of_upsert)
  have again: "sort_key week_of (put_article ?art ?new) = ?new"
    by (simp add: put_article_sorted_again sort_key_id_if_sorted)
  have a: "dict_get ?data' (str ''articles'') = Some (JArr ?new)"
    using articles_neq_completed by (simp add: dict_get_set_other dict_get_set_same)
  have c: "dict_get ?data' (str ''completed'') = Some (JInt (int (length ?new)))"
    by (rule dict_get_set_same)
  have "upsert_article ?data' article =
      Inr (dict_set (dict_set ?data' (str ''articles'') (JArr ?new))
             (str ''completed'') (JInt (int (length ?new))))"
    using upsert_article_document [OF d assms(2)] unfolding n again .
  also have "dict_set ?data' (str ''articles'') (JArr ?new) = ?data'"
    using a by (rule dict_set_same)
  also have "dict_set ?data' (str ''completed'') (JInt (int (length ?new))) = ?data'"
    using c by (rule dict_set_same)
  finally show ?thesis using u by blast
qed

theorem upsert_article_idempotent_witness:
  "document example_document \<and> article_record (JObj example_article) \<and>
   (\<exists>data'. upsert_article example_document example_article = Inr data' \<and>
      upsert_article data' example_article = Inr data')"
  using upsert_article_idempotent [OF example_document_ok example_article_ok]
    example_document_ok example_article_ok
  by simp

section \<open>Properties of the markdown field extractor\<close>

text \<open>
  Claim C7, as the code has it. \<open>parse_question\<close> takes the first run of quote lines, where a
  quote line is a line whose first character after leading white space is \<open>>\<close>, up to the
  first line after it that is no quote line. The text of a quote line is what follows the
  marker, without the white space before it; the white space at the end of the line is
  kept. \<open>parse_question\<close> returns these texts, without the empty ones, joined by line feeds,
  and the whole stripped of the white space at both of its ends; it exits with code 1 when
  that text is empty, hence whenever the input has no quote line.
\<close>

theorem parse_question_quote_block:
  "parse_question lines =
     (let text = strip (join (str ''\<newline>'')
                   (filter (\<lambda>x. x \<noteq> []) (map quote_text (quote_block lines))))
      in if text = [] then Inl (SystemExit 1) else Inr text) \<and>
   ((\<forall>l \<in> set lines. \<not> is_quote_line l) \<longrightarrow> parse_question lines = Inl (SystemExit 1))"
  by (auto simp: parse_question_def question_loop_out die_def Let_def quote_block_Nil strip_Nil)

theorem parse_question_quote_block_witness:
  "parse_question [str ''# t'', str ''> a '', str '' >  b '', str ''x'', str ''> c'']
     = Inr (str ''a \<newline>b'')"
  using parse_question_quote_block
    [of "[str ''# t'', str ''> a '', str '' >  b '', str ''x'', str ''> c'']"]
  by (simp add: quote_block_def quote_text_def is_quote_line_def startswith_def lstrip_def
      strip_def rstrip_def is_space_def str_def)

text \<open>
  Claim C7 as it is worded speaks of lines starting with the marker and of failure when
  there is none. The one line \<open> > q\<close> does not start with the marker, and \<open>parse_question\<close>
  returns \<open>q\<close> for it.
\<close>

theorem parse_question_indented_quote_counterexample:
  "\<not> startswith (str '' > q'') (str ''>'') \<and> parse_question [str '' > q''] = Inr (str ''q'')"
  by (simp add: parse_question_def startswith_def lstrip_def strip_def rstrip_def
      is_space_def str_def)

text \<open>
  Claim C6, as the code has it. \<open>parse_content\<close> finds the first line that is \<open>---\<close> once the
  white space around it is stripped, joins the lines after it with line feeds and removes
  the line feeds at both ends. It exits with code 1 exactly when there is no such line or
  what follows it is white space only. When no line holds a line feed, removing the line
  feeds at both ends is dropping the empty lines at both ends.
\<close>

theorem parse_content_first_divider:
  "parse_content lines =
     (case dropWhile (\<lambda>l. strip l \<noteq> str ''---'') lines of
        [] \<Rightarrow> Inl (SystemExit 1)
      | d # rest \<Rightarrow>
          if list_all is_space (join (str ''\<newline>'') rest) then Inl (SystemExit 1)
          else Inr (strip_chars (str ''\<newline>'') (join (str ''\<newline>'') rest))) \<and>
   ((\<forall>l \<in> set lines. 10 \<notin> set l) \<longrightarrow>
      strip_chars (str ''\<newline>'')
        (join (str ''\<newline>'') (tl (dropWhile (\<lambda>l. strip l \<noteq> str ''---'') lines))) =
      join (str ''\<newline>'')
        (trim_empty_lines (tl (dropWhile (\<lambda>l. strip l \<noteq> str ''---'') lines))))"
proof (intro conjI impI)
  show "parse_content lines =
     (case dropWhile (\<lambda>l. strip l \<noteq> str ''---'') lines of
        [] \<Rightarrow> Inl (SystemExit 1)
      | d # rest \<Rightarrow>
          if list_all is_space (join (str ''\<newline>'') rest) then Inl (SystemExit 1)
          else Inr (strip_chars (str ''\<newline>'') (join (str ''\<newline>'') rest)))"
    by (rule parse_content_divider)
next
  assume a: "\<forall>l \<in> set lines. 10 \<notin> set l"
  have "\<forall>l \<in> set (tl (dropWhile (\<lambda>l. strip l \<noteq> str ''---'') lines)). 10 \<notin> set l"
  proof
    fix l assume "l \<in> set (tl (dropWhile (\<lambda>l. strip l \<noteq> str ''---'') lines))"
    then have "l \<in> set lines" by (rule set_tl_dropWhile)
    with a show "10 \<notin> set l" by blast
  qed
  then show "strip_chars (str ''\<newline>'')
        (join (str ''\<newline>'') (tl (dropWhile (\<lambda>l. strip l \<noteq> str ''---'') lines))) =
      join (str ''\<newline>'')
        (trim_empty_lines (tl (dropWhile (\<lambda>l. strip l \<noteq> str ''---'') lines)))"
    by (rule strip_newlines_join)
qed

theorem parse_content_first_divider_witness:
  "parse_content [str ''t'', str '' --- '', str '''', str ''body'', str ''  x'', str '''']
     = Inr (str ''body\<newline>  x'')"
  using parse_content_first_divider
    [of "[str ''t'', str '' --- '', str '''', str ''body'', str ''  x'', str '''']"]
  by (simp add: trim_empty_lines_def strip_def lstrip_def rstrip_def is_space_def str_def
      strip_chars_def)

text \<open>
  Claim C6 as it is worded speaks of a line equal to \<open>---\<close> and of failure exactly when
  there is none or nothing follows it. No line of \<open> ---\<close>, \<open>x\<close> is equal to the marker, and
  \<open>parse_content\<close> returns \<open>x\<close>.
\<close>

theorem parse_content_padded_divider_counterexample:
  "str ''---'' \<notin> set [str '' ---'', str ''x''] \<and>
   parse_content [str '' ---'', str ''x''] = Inr (str ''x'')"
  by (simp add: parse_content_def strip_def lstrip_def rstrip_def is_space_def str_def
      strip_chars_def)

section \<open>Facts about searching and replacing\<close>


lemma startswith_Nil [simp]: "startswith s []"
  by (simp add: startswith_def)

lemma startswith_Cons [simp]:
  "startswith (a # s) (b # p) \<longleftrightarrow> a = b \<and> startswith s p"
  by (auto simp: startswith_def)

lemma startswith_Nil_left [simp]: "startswith [] p \<longleftrightarrow> p = []"
  by (auto simp: startswith_def)

lemma startswith_append: "startswith (p @ s) p"
  by (simp add: startswith_def)

lemma startswith_decompose: "startswith s p \<Longrightarrow> s = p @ drop (length p) s"
  by (metis startswith_def append_take_drop_id)

lemma py_find_first:
  "n \<le> length s \<Longrightarrow> startswith (drop n s) sub \<Longrightarrow>
   (\<And>j. j < n \<Longrightarrow> \<not> startswith (drop j s) sub) \<Longrightarrow> py_find s sub = Some n"
proof (induction s arbitrary: n)
  case Nil
  then show ?case by simp
next
  case (Cons c cs)
  show ?case
  proof (cases n)
    case 0
    with Cons.prems show ?thesis by simp
  next
    case (Suc m)
    with Cons.prems(3) [of 0] have "\<not> startswith (c # cs) sub" by simp
    moreover have "py_find cs sub = Some m"
    proof (rule Cons.IH)
      show "m \<le> length cs" using Cons.prems(1) Suc by simp
      show "startswith (drop m cs) sub" using Cons.prems(2) Suc by simp
      fix j assume "j < m"
      with Cons.prems(3) [of "Suc j"] Suc show "\<not> startswith (drop j cs) sub" by simp
    qed
    ultimately show ?thesis using Suc by simp
  qed
qed












section \<open>Facts about the patterns\<close>

lemma backtrack_Some:
  "backtrack rest s m = Some (n, r) \<Longrightarrow> 1 \<le> n \<and> n \<le> m \<and> rest (drop n s) = Some r"
  by (induction m) (auto split: option.splits)

lemma backtrack_first:
  "1 \<le> n \<Longrightarrow> n \<le> m \<Longrightarrow> rest (drop n s) = Some r \<Longrightarrow>
   (\<And>j. n < j \<Longrightarrow> j \<le> m \<Longrightarrow> rest (drop j s) = None) \<Longrightarrow>
   backtrack rest s m = Some (n, r)"
proof (induction m)
  case 0
  then show ?case by simp
next
  case (Suc m)
  show ?case
  proof (cases "n = Suc m")
    case True
    with Suc.prems show ?thesis by simp
  next
    case False
    with Suc.prems have "n \<le> m" and "rest (drop (Suc m) s) = None" by simp_all
    with Suc show ?thesis by simp
  qed
qed

lemma backtrack_None:
  "(\<And>j. 1 \<le> j \<Longrightarrow> j \<le> m \<Longrightarrow> rest (drop j s) = None) \<Longrightarrow> backtrack rest s m = None"
  by (induction m) simp_all

lemma startswith_length: "startswith t p \<Longrightarrow> length p \<le> length t"
  by (metis startswith_def length_take min.cobounded1)

lemma take_le_takeWhile:
  "n \<le> length (takeWhile cls s) \<Longrightarrow> \<forall>c \<in> set (take n s). cls c"
proof -
  assume "n \<le> length (takeWhile cls s)"
  then have "take n s = take n (takeWhile cls s)"
    by (metis append_eq_conv_conj takeWhile_eq_take take_take min.absorb1)
  then show ?thesis by (auto dest: in_set_takeD set_takeWhileD)
qed

lemma plus_then_Some:
  assumes "plus_then cls rest s = Some (t, r)"
  shows "\<exists>u. s = t @ u \<and> t \<noteq> [] \<and> (\<forall>c \<in> set t. cls c) \<and> rest u = Some r"
proof -
  from assms obtain n where b: "backtrack rest s (length (takeWhile cls s)) = Some (n, r)"
    and t: "t = take n s"
    by (auto simp: plus_then_def)
  from backtrack_Some [OF b] have n: "1 \<le> n" "n \<le> length (takeWhile cls s)"
    and r: "rest (drop n s) = Some r" by simp_all
  from n(2) have "\<forall>c \<in> set (take n s). cls c" by (rule take_le_takeWhile)
  moreover from n length_takeWhile_le [of cls s] have "take n s \<noteq> []" by auto
  ultimately show ?thesis using r t by (intro exI [of _ "drop n s"]) simp
qed

lemma match_md_tail:
  "(if startswith t (str ''.md'') \<and> at_end (drop 3 t) then Some () else None) = Some u
     \<longleftrightarrow> t = str ''.md'' \<or> t = str ''.md\<newline>''"
proof -
  have "length (str ''.md'') = 3" by (simp add: str_def)
  with startswith_decompose [of t "str ''.md''"]
  have "startswith t (str ''.md'') \<Longrightarrow> t = str ''.md'' @ drop 3 t"
    by (simp only:)
  then show ?thesis
    by (auto simp: at_end_def str_def)
qed

lemma plus_then_md:
  assumes "title \<noteq> []" and "10 \<notin> set title"
  shows "plus_then dot
           (\<lambda>t. if startswith t (str ''.md'') \<and> at_end (drop 3 t) then Some () else None)
           (title @ str ''.md'') = Some (title, ())"
proof -
  let ?rest = "\<lambda>t. if startswith t (str ''.md'') \<and> at_end (drop 3 t) then Some () else None"
  let ?s = "title @ str ''.md''"
  have "\<forall>c \<in> set ?s. dot c"
    using assms(2) by (auto simp: dot_def str_def)
  then have run: "takeWhile dot ?s = ?s"
    by (simp only: takeWhile_eq_all_conv)
  have "backtrack ?rest ?s (length ?s) = Some (length title, ())"
  proof (rule backtrack_first)
    show "1 \<le> length title" using assms(1) by (cases title) simp_all
    show "length title \<le> length ?s" by simp
    show "?rest (drop (length title) ?s) = Some ()"
      by (simp add: at_end_def str_def)
    fix j assume "length title < j" and "j \<le> length ?s"
    then have "length (drop j ?s) < length (str ''.md'')" by (simp add: str_def)
    with startswith_length [of "drop j ?s" "str ''.md''"]
    have "\<not> startswith (drop j ?s) (str ''.md'')" by linarith
    then show "?rest (drop j ?s) = None" by simp
  qed
  then show ?thesis by (simp add: plus_then_def run)
qed

lemma match_week_name_form:
  assumes "digit_value nd0 d1 = Some a" and "digit_value nd0 d2 = Some b"
    and "title \<noteq> []" and "10 \<notin> set title"
  shows "match_week_name nd0 (week_name d1 d2 title) = Some ((a, b), title)"
proof -
  have "startswith (week_name d1 d2 title) (str ''Week'')"
    and "drop 4 (week_name d1 d2 title) = d1 # d2 # separator # (title @ str ''.md'')"
    by (simp_all add: week_name_def str_def)
  then show ?thesis
    by (simp add: match_week_name_def assms(1,2) plus_then_md [OF assms(3,4)])
qed

lemma match_week_name_Some:
  assumes "match_week_name nd0 name = Some ((a, b), title)"
  shows "\<exists>d1 d2. digit_value nd0 d1 = Some a \<and> digit_value nd0 d2 = Some b \<and>
           title \<noteq> [] \<and> 10 \<notin> set title \<and>
           (name = week_name d1 d2 title \<or> name = week_name d1 d2 title @ str ''\<newline>'')"
proof -
  let ?rest = "\<lambda>t. if startswith t (str ''.md'') \<and> at_end (drop 3 t) then Some () else None"
  from assms have w: "startswith name (str ''Week'')"
    by (auto simp: match_week_name_def split: if_splits)
  have "length (str ''Week'') = 4" by (simp add: str_def)
  with startswith_decompose [OF w] have n: "name = str ''Week'' @ drop 4 name"
    by (simp only:)
  from assms w obtain d1 d2 s where d: "drop 4 name = d1 # d2 # separator # s"
    and a: "digit_value nd0 d1 = Some a" and b: "digit_value nd0 d2 = Some b"
    and p: "plus_then dot ?rest s = Some (title, ())"
    by (auto simp: match_week_name_def split: if_splits list.splits option.splits)
  from plus_then_Some [OF p] obtain u where s: "s = title @ u" and t: "title \<noteq> []"
    and c: "\<forall>c \<in> set title. dot c" and u: "?rest u = Some ()" by blast
  from u have "u = str ''.md'' \<or> u = str ''.md\<newline>''"
    by (simp only: match_md_tail)
  then have "name = week_name d1 d2 title \<or> name = week_name d1 d2 title @ str ''\<newline>''"
    using n d s by (auto simp: week_name_def str_def)
  moreover from c have "10 \<notin> set title" by (auto simp: dot_def)
  ultimately show ?thesis using a b t by blast
qed

text \<open>
  What \<open>parse_week_filename\<close> accepts: a name \<open>Week\<close>, two decimal digits, the separator, a
  title that is not empty and holds no line feed, and \<open>.md\<close> gives the value of the digits
  and the title; a name that is not of this form, also not with one line feed behind it,
  is refused.
\<close>

lemma parse_week_filename_names:
  "(digit_value nd0 d1 = Some a \<and> digit_value nd0 d2 = Some b \<and> title \<noteq> [] \<and> 10 \<notin> set title \<longrightarrow>
      parse_week_filename nd0 (week_name d1 d2 title) = Inr (int (10 * a + b), title)) \<and>
   (parse_week_filename nd0 name = Inl (SystemExit 1) \<or>
    (\<exists>d1 d2 a b title.
        digit_value nd0 d1 = Some a \<and> digit_value nd0 d2 = Some b \<and> title \<noteq> [] \<and>
        10 \<notin> set title \<and>
        (name = week_name d1 d2 title \<or> name = week_name d1 d2 title @ str ''\<newline>'')))"
proof (intro conjI impI)
  assume "digit_value nd0 d1 = Some a \<and> digit_value nd0 d2 = Some b \<and> title \<noteq> [] \<and> 10 \<notin> set title"
  then have "match_week_name nd0 (week_name d1 d2 title) = Some ((a, b), title)"
    by (simp add: match_week_name_form)
  then show "parse_week_filename nd0 (week_name d1 d2 title) = Inr (int (10 * a + b), title)"
    by (simp add: parse_week_filename_def)
next
  show "parse_week_filename nd0 name = Inl (SystemExit 1) \<or>
    (\<exists>d1 d2 a b title.
        digit_value nd0 d1 = Some a \<and> digit_value nd0 d2 = Some b \<and> title \<noteq> [] \<and>
        10 \<notin> set title \<and>
        (name = week_name d1 d2 title \<or> name = week_name d1 d2 title @ str ''\<newline>''))"
  proof (cases "match_week_name nd0 name")
    case None
    then show ?thesis by (simp add: parse_week_filename_def die_def)
  next
    case (Some m)
    then obtain a b title where "match_week_name nd0 name = Some ((a, b), title)"
      by (cases m) auto
    from match_week_name_Some [OF this] show ?thesis by blast
  qed
qed

section \<open>Facts about the syncer\<close>

lemma first_at_iff:
  "first_at s sub n \<longleftrightarrow>
     n \<le> length s \<and> startswith (drop n s) sub \<and> (\<forall>j<n. \<not> startswith (drop j s) sub)"
  by (auto simp: first_at_def list_all_iff)



lemma py_find_first_at: "first_at s sub n \<Longrightarrow> py_find s sub = Some n"
  unfolding first_at_iff by (blast intro: py_find_first)

lemma py_find_from_first_at:
  "start \<le> length s \<Longrightarrow> first_at (drop start s) sub m \<Longrightarrow>
   py_find_from s sub start = Some (start + m)"
  by (simp add: py_find_from_def py_find_first_at)


lemma first_at_length: "first_at s sub n \<Longrightarrow> n + length sub \<le> length s"
proof -
  assume "first_at s sub n"
  then have "n \<le> length s" and "startswith (drop n s) sub" by (simp_all add: first_at_iff)
  from startswith_length [OF this(2)] this(1) show ?thesis by simp
qed

lemma synced_html_found:
  assumes "first_at html marker n"
    and "first_at (drop (n + length marker) html) closing_tag m"
  shows "synced_html e html data =
     Inr (take (n + length marker) html @ inline_json e data @
          drop (n + length marker + m) html)"
  using first_at_length [OF assms(1)]
  by (simp add: synced_html_def py_find_first_at [OF assms(1)] Let_def
      py_find_from_first_at [OF _ assms(2)])





lemma example_html_marker: "first_at example_html marker 3"
  by (simp add: first_at_def example_html_def marker_def closing_tag_def str_def upt_rec)

lemma example_html_closing: "first_at (drop (3 + length marker) example_html) closing_tag 3"
  by (simp add: first_at_def example_html_def marker_def closing_tag_def str_def upt_rec)


section \<open>Facts about the run\<close>





















lemma example_synced:
  "\<exists>new_html. synced_html e example_html data = Inr new_html"
  using synced_html_found [OF example_html_marker example_html_closing] by blast



section \<open>Facts about the asset converter\<close>






























lemma example_unclean_reference:
  "\<not> clean_reference (str ''./assets//a'') \<and>
   webp_reference (str ''./assets//a'') (str ''png'') = str ''./assets/a.webp''"
  by code_simp

section \<open>Properties of the HTML syncer\<close>



section \<open>Properties of the filename parser\<close>

text \<open>
  Claim C8 asks that every name that is not of the form \<open>Week\<close>, two digits, separator,
  title, \<open>.md\<close> is refused. The pattern ends in \<open>$\<close>, which also matches before a line feed
  that ends the name: the name of week 01 with the title \<open>a\<close> and a line feed behind \<open>.md\<close>
  is accepted, as week 1 with the title \<open>a\<close>.
\<close>

theorem parse_week_filename_trailing_line_feed:
  "parse_week_filename arabic_indic (week_name 48 49 (str ''a'') @ str ''\<newline>'') = Inr (1, str ''a'')"
  by (simp add: parse_week_filename_def match_week_name_def week_name_def startswith_def
      str_def digit_value_def separator_def plus_then_def dot_def at_end_def)

section \<open>Properties of the run\<close>




section \<open>Properties of the asset converter\<close>




end
